theory Spec2Isabelle
  imports Main "HOL-Library.AList" "HOL-Library.Log_Nat"
begin

section \<open>Documents and collections\<close>

text \<open>
  The election API keeps four MongoDB collections: \<open>voter\<close>, \<open>voterstatus\<close>,
  \<open>candidate\<close> and \<open>vote\<close>. A collection is the list of its documents in natural
  (insertion) order. A document keeps the fields the routes read or write; a field that
  a route reads with \<open>doc.get(key, default)\<close> is an option, \<open>None\<close> standing for a
  missing key.
\<close>

text \<open>
  An \<open>ObjectId\<close> is held by its canonical text, \<open>str(ObjectId)\<close>: 24 lower-case
  hexadecimal digits.
\<close>

type_synonym objectid = string

record voter_doc =
  voter_nim :: string
  voter_eligible :: "bool option"

record status_doc =
  status_nim :: string
  status_has_voted :: "bool option"
  status_voted_at :: "string option"

record candidate_doc =
  cand_id :: objectid
  cand_number :: int
  cand_president_name :: string
  cand_vice_name :: string

text \<open>schemas.py, class \<open>Vote\<close>: the only field is \<open>candidate_id\<close>.\<close>

record vote_doc =
  vote_candidate_id :: string

record db =
  voter :: "voter_doc list"
  voterstatus :: "status_doc list"
  candidate :: "candidate_doc list"
  vote :: "vote_doc list"

text \<open>main.py, class \<open>VoteRequest\<close>.\<close>

record vote_request =
  req_nim :: string
  req_candidate_id :: string

text \<open>
  The \<open>Field\<close> constraints of \<open>VoteRequest\<close> (\<open>min_length=8, max_length=20\<close> on
  \<open>nim\<close>), which the framework checks before \<open>cast_vote\<close> runs.
\<close>

definition vote_request_valid :: "vote_request \<Rightarrow> bool" where
  "vote_request_valid p = (8 \<le> length (req_nim p) \<and> length (req_nim p) \<le> 20)"

section \<open>Errors and store accesses\<close>

text \<open>
  Every \<open>HTTPException\<close> of main.py is a constructor, named by its status code; an
  exception of the storage layer that no handler catches is \<open>Http500\<close>.
\<close>

datatype http_error = Http400 | Http403 | Http404 | Http409 | Http500

text \<open>One entry per call that reaches the database, in program order.\<close>

datatype access = ReadVoter | ReadStatus | ReadCandidate | InsertVote | UpsertStatus

section \<open>Storage primitives\<close>

text \<open>\<open>collection.find_one(filter)\<close>: the first document that matches, or \<open>None\<close>.\<close>

fun find_one :: "('a \<Rightarrow> bool) \<Rightarrow> 'a list \<Rightarrow> 'a option" where
  "find_one f [] = None"
| "find_one f (d # ds) = (if f d then Some d else find_one f ds)"

text \<open>
  \<open>db["voterstatus"].update_one({"nim": nim}, {"$set": {"nim": nim, "has_voted": True,
  "voted_at": t}}, upsert=True)\<close>: the first matching document gets the three
  fields; with no match a document made of them is inserted.
\<close>

fun update_one_voted :: "string \<Rightarrow> string \<Rightarrow> status_doc list \<Rightarrow> status_doc list" where
  "update_one_voted n t [] =
     [\<lparr>status_nim = n, status_has_voted = Some True, status_voted_at = Some t\<rparr>]"
| "update_one_voted n t (d # ds) =
     (if status_nim d = n
      then d\<lparr>status_nim := n, status_has_voted := Some True, status_voted_at := Some t\<rparr> # ds
      else d # update_one_voted n t ds)"

text \<open>
  Modelled from the spec: \<open>create_document\<close> belongs to the module \<open>database\<close>, which
  is not among the source files. Section 6 gives the Ballot Store the operation
  \<open>append(candidateId) -> ok | error\<close>: the document is appended to the collection,
  or the store reports an error. Whether the store accepts the write is the first
  argument.
\<close>

definition create_document :: "bool \<Rightarrow> db \<Rightarrow> vote_doc \<Rightarrow> http_error + db" where
  "create_document store_up d v =
     (if store_up then Inr (d\<lparr>vote := vote d @ [v]\<rparr>) else Inl Http500)"

section \<open>Utility functions\<close>

definition hex_digit :: "char \<Rightarrow> bool" where
  "hex_digit c = (c \<in> set ''0123456789abcdefABCDEF'')"

definition lower_hex :: "char \<Rightarrow> char" where
  "lower_hex c =
     (if c = CHR ''A'' then CHR ''a'' else if c = CHR ''B'' then CHR ''b''
      else if c = CHR ''C'' then CHR ''c'' else if c = CHR ''D'' then CHR ''d''
      else if c = CHR ''E'' then CHR ''e'' else if c = CHR ''F'' then CHR ''f'' else c)"

text \<open>
  main.py, \<open>objid\<close>. \<open>ObjectId\<close> comes from the library \<open>bson\<close>; by its documented
  contract \<open>ObjectId(oid)\<close> accepts a string of 24 hexadecimal digits, in either
  case, and raises \<open>InvalidId\<close> for any other string. \<open>objid\<close> turns the exception
  into HTTP 400.
\<close>

definition objid :: "string \<Rightarrow> http_error + objectid" where
  "objid oid =
     (if length oid = 24 \<and> list_all hex_digit oid then Inr (map lower_hex oid)
      else Inl Http400)"

section \<open>Routes\<close>

text \<open>\<open>not voter or not voter.get("eligible", True)\<close>\<close>

definition not_eligible :: "voter_doc option \<Rightarrow> bool" where
  "not_eligible v =
     (case v of None \<Rightarrow> True
      | Some d \<Rightarrow> (case voter_eligible d of None \<Rightarrow> False | Some b \<Rightarrow> \<not> b))"

text \<open>\<open>status and status.get("has_voted", False)\<close>\<close>

definition already_voted :: "status_doc option \<Rightarrow> bool" where
  "already_voted s =
     (case s of None \<Rightarrow> False
      | Some d \<Rightarrow> (case status_has_voted d of None \<Rightarrow> False | Some b \<Rightarrow> b))"

record validate_response =
  resp_nim :: string
  resp_eligible :: bool
  resp_has_voted :: bool

text \<open>main.py, \<open>validate_voter\<close>. It reads two collections and writes none.\<close>

definition validate_voter :: "db \<Rightarrow> string \<Rightarrow> validate_response" where
  "validate_voter d nim =
     (let v = find_one (\<lambda>x. voter_nim x = nim) (voter d);
          eligible = \<not> not_eligible v;
          status = find_one (\<lambda>x. status_nim x = nim) (voterstatus d);
          has_voted = already_voted status
      in if v = None
         then \<lparr>resp_nim = nim, resp_eligible = False, resp_has_voted = False\<rparr>
         else \<lparr>resp_nim = nim, resp_eligible = eligible, resp_has_voted = has_voted\<rparr>)"

text \<open>
  What one call of \<open>cast_vote\<close> leaves behind: the store accesses it made, the database
  after it, and its reply (\<open>Inr ()\<close> is \<open>{"success": True}\<close>).
\<close>

record outcome =
  log :: "access list"
  db_after :: db
  reply :: "http_error + unit"

text \<open>
  main.py, \<open>cast_vote\<close>, steps 1 to 5 in the order of the source. \<open>store_up\<close> says
  whether the ballot insert is accepted and \<open>now\<close> is the time stamp of step 5.
\<close>

definition cast_vote :: "bool \<Rightarrow> string \<Rightarrow> db \<Rightarrow> vote_request \<Rightarrow> outcome" where
  "cast_vote store_up now d payload =
     (let nim = req_nim payload;
          candidate_id = req_candidate_id payload
      in if not_eligible (find_one (\<lambda>x. voter_nim x = nim) (voter d))
         then \<lparr>log = [ReadVoter], db_after = d, reply = Inl Http403\<rparr>
         else if already_voted (find_one (\<lambda>x. status_nim x = nim) (voterstatus d))
         then \<lparr>log = [ReadVoter, ReadStatus], db_after = d, reply = Inl Http409\<rparr>
         else
           (case objid candidate_id of
              Inl e \<Rightarrow> \<lparr>log = [ReadVoter, ReadStatus], db_after = d, reply = Inl e\<rparr>
            | Inr oid \<Rightarrow>
               (case find_one (\<lambda>c. cand_id c = oid) (candidate d) of
                  None \<Rightarrow>
                    \<lparr>log = [ReadVoter, ReadStatus, ReadCandidate], db_after = d,
                     reply = Inl Http404\<rparr>
                | Some c \<Rightarrow>
                   (case create_document store_up d \<lparr>vote_candidate_id = candidate_id\<rparr> of
                      Inl e \<Rightarrow>
                        \<lparr>log = [ReadVoter, ReadStatus, ReadCandidate, InsertVote],
                         db_after = d, reply = Inl e\<rparr>
                    | Inr d1 \<Rightarrow>
                        \<lparr>log = [ReadVoter, ReadStatus, ReadCandidate, InsertVote, UpsertStatus],
                         db_after = d1\<lparr>voterstatus := update_one_voted nim now (voterstatus d1)\<rparr>,
                         reply = Inr ()\<rparr>))))"

text \<open>The voter's flag as the routes read it from the ledger.\<close>

definition has_voted :: "db \<Rightarrow> string \<Rightarrow> bool" where
  "has_voted d nim = already_voted (find_one (\<lambda>x. status_nim x = nim) (voterstatus d))"

section \<open>One call as a sequence of store accesses\<close>

text \<open>
  Each statement of \<open>cast_vote\<close> that reaches the database is one step of the call:
  the program counter names the next access, and the database is shared. Between two
  steps of one call another call may run.
\<close>

datatype pc = AtVoter | AtStatus | AtCandidate | AtInsert | AtMark | Finished "http_error + unit"

fun cast_vote_step :: "bool \<Rightarrow> string \<Rightarrow> vote_request \<Rightarrow> db \<times> pc \<Rightarrow> db \<times> pc" where
  "cast_vote_step su now p (d, AtVoter) =
     (if not_eligible (find_one (\<lambda>x. voter_nim x = req_nim p) (voter d))
      then (d, Finished (Inl Http403)) else (d, AtStatus))"
| "cast_vote_step su now p (d, AtStatus) =
     (if already_voted (find_one (\<lambda>x. status_nim x = req_nim p) (voterstatus d))
      then (d, Finished (Inl Http409)) else (d, AtCandidate))"
| "cast_vote_step su now p (d, AtCandidate) =
     (case objid (req_candidate_id p) of
        Inl e \<Rightarrow> (d, Finished (Inl e))
      | Inr oid \<Rightarrow>
         (case find_one (\<lambda>c. cand_id c = oid) (candidate d) of
            None \<Rightarrow> (d, Finished (Inl Http404))
          | Some c \<Rightarrow> (d, AtInsert)))"
| "cast_vote_step su now p (d, AtInsert) =
     (case create_document su d \<lparr>vote_candidate_id = req_candidate_id p\<rparr> of
        Inl e \<Rightarrow> (d, Finished (Inl e))
      | Inr d1 \<Rightarrow> (d1, AtMark))"
| "cast_vote_step su now p (d, AtMark) =
     (d\<lparr>voterstatus := update_one_voted (req_nim p) now (voterstatus d)\<rparr>, Finished (Inr ()))"
| "cast_vote_step su now p (d, Finished r) = (d, Finished r)"

text \<open>A call that runs with no other call in between: its five steps in a row.\<close>

definition cast_vote_alone :: "bool \<Rightarrow> string \<Rightarrow> db \<Rightarrow> vote_request \<Rightarrow> db \<times> pc" where
  "cast_vote_alone su now d p =
     cast_vote_step su now p (cast_vote_step su now p (cast_vote_step su now p
       (cast_vote_step su now p (cast_vote_step su now p (d, AtVoter)))))"

text \<open>
  Two calls on one database. The schedule says, step by step, which call moves:
  \<open>False\<close> the first, \<open>True\<close> the second.
\<close>

record call =
  call_store_up :: bool
  call_now :: string
  call_payload :: vote_request

fun interleave :: "call \<Rightarrow> call \<Rightarrow> bool list \<Rightarrow> db \<times> pc \<times> pc \<Rightarrow> db \<times> pc \<times> pc" where
  "interleave a b [] s = s"
| "interleave a b (second # sched) (d, pa, pb) =
     (if second
      then (case cast_vote_step (call_store_up b) (call_now b) (call_payload b) (d, pb) of
              (d', pb') \<Rightarrow> interleave a b sched (d', pa, pb'))
      else (case cast_vote_step (call_store_up a) (call_now a) (call_payload a) (d, pa) of
              (d', pa') \<Rightarrow> interleave a b sched (d', pa', pb)))"

section \<open>Python floats\<close>

text \<open>
  A Python \<open>float\<close> is an IEEE 754 binary64 number. A finite double is held by its
  exact value, a rational, and an arithmetic operation is the exact operation followed by
  rounding to the nearest double, ties to even. \<open>pow2 k\<close> is the k-th power of two,
  \<open>floor_log2 x\<close> the binary exponent of a positive \<open>x\<close>; a double has 53
  significant bits, and no unit in the last place is below \<open>2^-1074\<close>. The values
  of \<open>get_results\<close> lie between 0 and 100, far from overflow.
\<close>

definition pow2 :: "int \<Rightarrow> rat" where
  "pow2 k = (if 0 \<le> k then 2 ^ nat k else 1 / 2 ^ nat (- k))"

definition round_half_even :: "rat \<Rightarrow> int" where
  "round_half_even x =
     (let n = \<lfloor>x\<rfloor>; r = x - of_int n
      in if r < 1 / 2 then n else if 1 / 2 < r then n + 1 else if even n then n else n + 1)"

definition floor_log2 :: "rat \<Rightarrow> int" where
  "floor_log2 x =
     (case quotient_of x of (a, b) \<Rightarrow>
        let k = bitlen a - bitlen b
        in if pow2 k \<le> x then k else k - 1)"

definition round_double :: "rat \<Rightarrow> rat" where
  "round_double x =
     (if x = 0 then 0
      else let u = pow2 (max (floor_log2 \<bar>x\<bar> - 52) (- 1074))
           in of_int (round_half_even (x / u)) * u)"

text \<open>
  \<open>a / b\<close> on two \<open>int\<close>s and \<open>x * y\<close> on two floats are correctly rounded;
  \<open>get_results\<close> divides only by a positive total, so the \<open>ZeroDivisionError\<close> of
  \<open>a / 0\<close> has no branch here. \<open>round(x, 2)\<close> rounds the exact value of \<open>x\<close> to the nearest multiple of
  \<open>1/100\<close>, ties to even, and returns the double nearest to that decimal.
\<close>

definition float_div :: "int \<Rightarrow> int \<Rightarrow> rat" where
  "float_div a b = round_double (of_int a / of_int b)"

definition float_mul :: "rat \<Rightarrow> rat \<Rightarrow> rat" where
  "float_mul x y = round_double (x * y)"

definition py_round2 :: "rat \<Rightarrow> rat" where
  "py_round2 x = round_double (of_int (round_half_even (x * 100)) / 100)"

section \<open>The results route\<close>

text \<open>main.py, classes \<open>ResultsItem\<close> and \<open>ResultsResponse\<close>.\<close>

record results_item =
  item_candidate_id :: string
  item_number :: int
  item_president_name :: string
  item_vice_name :: string
  item_count :: int
  item_percentage :: rat

record results_response =
  total_votes :: int
  results :: "results_item list"

text \<open>
  The aggregation \<open>{"$group": {"_id": "$candidate_id", "count": {"$sum": 1}}}\<close>
  over the \<open>vote\<close> collection: one row per distinct \<open>candidate_id\<close>, with the
  number of ballots that carry it. A ballot holds the candidate id as the string that
  \<open>cast_vote\<close> received, so the key of a row is a string already and
  \<open>str(cid)\<close> leaves it as it is. MongoDB leaves the order of the rows open; the
  rows have distinct keys, so the order changes neither a count nor the total.
\<close>

definition group_by_candidate_id :: "vote_doc list \<Rightarrow> (string \<times> int) list" where
  "group_by_candidate_id vs =
     (let ids = map vote_candidate_id vs
      in map (\<lambda>k. (k, int (count_list ids k))) (remdups ids))"

text \<open>
  main.py, \<open>get_results\<close>, lines 177 to 187: \<open>counts_map\<close> is a \<open>dict\<close>, held as
  an association list in insertion order. It starts with 0 for the id of every
  candidate; each row of the aggregation then stores its count under its key.
\<close>

definition counts_map :: "candidate_doc list \<Rightarrow> vote_doc list \<Rightarrow> (string \<times> int) list" where
  "counts_map candidates votes =
     foldl (\<lambda>m row. AList.update (fst row) (snd row) m)
       (foldl (\<lambda>m c. AList.update (cand_id c) 0 m) [] candidates)
       (group_by_candidate_id votes)"

text \<open>
  main.py, \<open>get_results\<close>. \<open>results.sort(key=...)\<close> is a stable sort, as
  \<open>sort_key\<close> is.
\<close>

definition get_results :: "db \<Rightarrow> results_response" where
  "get_results d =
     (let candidates = candidate d;
          counts = counts_map candidates (vote d);
          total_votes = sum_list (map snd counts);
          results = map (\<lambda>c.
              let cid = cand_id c;
                  count = (case map_of counts cid of None \<Rightarrow> 0 | Some n \<Rightarrow> n);
                  percentage = (if total_votes > 0
                                then float_mul (float_div count total_votes) 100 else 0)
              in \<lparr>item_candidate_id = cid, item_number = cand_number c,
                  item_president_name = cand_president_name c,
                  item_vice_name = cand_vice_name c,
                  item_count = count, item_percentage = py_round2 percentage\<rparr>) candidates
      in \<lparr>total_votes = total_votes, results = sort_key item_number results\<rparr>)"

text \<open>
  A ballot references a candidate when its \<open>candidate_id\<close> resolves as \<open>cast_vote\<close>
  resolves it: \<open>objid\<close> accepts the string and the registry holds a candidate under
  the resulting id. An id is canonical when it is the text \<open>str(ObjectId(...))\<close>
  gives for it, the form in which \<open>get_results\<close> spells the ids of the candidates;
  a ballot is stored canonically when its \<open>candidate_id\<close>, if it is an ObjectId at
  all, is held in that form.
\<close>

definition references_candidate :: "db \<Rightarrow> vote_doc \<Rightarrow> bool" where
  "references_candidate d v =
     (case objid (vote_candidate_id v) of
        Inl e \<Rightarrow> False
      | Inr oid \<Rightarrow> find_one (\<lambda>c. cand_id c = oid) (candidate d) \<noteq> None)"

definition canonical_id :: "string \<Rightarrow> bool" where
  "canonical_id s = (objid s = Inr s)"

definition stored_canonically :: "vote_doc \<Rightarrow> bool" where
  "stored_canonically v =
     (case objid (vote_candidate_id v) of
        Inl e \<Rightarrow> True
      | Inr oid \<Rightarrow> oid = vote_candidate_id v)"

section \<open>Operations of the engine\<close>

datatype operation = Validate string | CastVote bool string vote_request | Tally

text \<open>
  The database after one operation. \<open>validate_voter\<close> and \<open>get_results\<close> only
  read: they hand the database back as it was.
\<close>

fun apply_operation :: "db \<Rightarrow> operation \<Rightarrow> db" where
  "apply_operation d (Validate nim) = d"
| "apply_operation d (CastVote store_up now payload) = db_after (cast_vote store_up now d payload)"
| "apply_operation d Tally = d"

section \<open>A concrete election\<close>

definition c1 :: string where "c1 = ''64b7f0a1c2d3e4f5a6b7c8d9''"
definition c2 :: string where "c2 = ''64b7f0a1c2d3e4f5a6b7c8da''"
definition c3 :: string where "c3 = ''64b7f0a1c2d3e4f5a6b7c8db''"

definition scenario_db :: db where
  "scenario_db =
     \<lparr>voter = [\<lparr>voter_nim = ''20200001'', voter_eligible = Some True\<rparr>,
               \<lparr>voter_nim = ''20200002'', voter_eligible = Some True\<rparr>,
               \<lparr>voter_nim = ''20200003'', voter_eligible = None\<rparr>,
               \<lparr>voter_nim = ''20200004'', voter_eligible = Some False\<rparr>],
      voterstatus = [],
      candidate = [\<lparr>cand_id = c1, cand_number = 1, cand_president_name = ''A'', cand_vice_name = ''B''\<rparr>,
                   \<lparr>cand_id = c2, cand_number = 2, cand_president_name = ''C'', cand_vice_name = ''D''\<rparr>],
      vote = []\<rparr>"

text \<open>The database after the voter 20200001 has cast a vote for the first candidate.\<close>

definition voted_db :: db where
  "voted_db = db_after (cast_vote True ''t0'' scenario_db \<lparr>req_nim = ''20200001'', req_candidate_id = c1\<rparr>)"

text \<open>
  Scenario C: three ballots for candidate 1 and one for candidate 2. Then a store with a
  ballot for a candidate that is not in the registry, and an election of three
  candidates with one ballot each.
\<close>

definition scenario_c :: db where
  "scenario_c = scenario_db\<lparr>vote :=
     [\<lparr>vote_candidate_id = c1\<rparr>, \<lparr>vote_candidate_id = c2\<rparr>,
      \<lparr>vote_candidate_id = c1\<rparr>, \<lparr>vote_candidate_id = c1\<rparr>]\<rparr>"

definition orphan_db :: db where
  "orphan_db = scenario_db\<lparr>vote := [\<lparr>vote_candidate_id = c1\<rparr>, \<lparr>vote_candidate_id = c3\<rparr>]\<rparr>"

definition thirds_db :: db where
  "thirds_db = scenario_db
     \<lparr>candidate := candidate scenario_db @
        [\<lparr>cand_id = c3, cand_number = 3, cand_president_name = ''E'', cand_vice_name = ''F''\<rparr>],
      vote := [\<lparr>vote_candidate_id = c1\<rparr>, \<lparr>vote_candidate_id = c2\<rparr>, \<lparr>vote_candidate_id = c3\<rparr>]\<rparr>"

text \<open>
  The first candidate's id in upper case, and the database after the voter 20200001 has
  cast a vote under that spelling.
\<close>

definition c1_upper :: string where "c1_upper = ''64B7F0A1C2D3E4F5A6B7C8D9''"

definition upper_db :: db where
  "upper_db = db_after (cast_vote True ''t0'' scenario_db
     \<lparr>req_nim = ''20200001'', req_candidate_id = c1_upper\<rparr>)"

section \<open>Properties of \<open>cast_vote\<close>\<close>

text \<open>The five steps in a row are the call as the route function runs it.\<close>

lemma cast_vote_alone_eq:
  "cast_vote_alone su now d p =
     (db_after (cast_vote su now d p), Finished (reply (cast_vote su now d p)))"
  by (simp add: cast_vote_alone_def cast_vote_def Let_def create_document_def
      split: sum.splits option.splits)

lemma cast_vote_error_unchanged:
  "reply (cast_vote su now d p) = Inl e \<Longrightarrow> db_after (cast_vote su now d p) = d"
  by (simp add: cast_vote_def Let_def create_document_def split: if_splits sum.splits option.splits)

lemma already_voted_update_one_voted:
  "already_voted (find_one (\<lambda>x. status_nim x = n) (update_one_voted n t ds))"
  by (induction ds) (auto simp: already_voted_def)

lemma find_one_update_one_voted_other:
  "m \<noteq> n \<Longrightarrow> find_one (\<lambda>x. status_nim x = n) (update_one_voted m t ds) =
     find_one (\<lambda>x. status_nim x = n) ds"
  by (induction ds) auto

lemma has_voted_cast_vote:
  "has_voted d n \<Longrightarrow> has_voted (db_after (cast_vote su now d p)) n"
  by (cases "req_nim p = n")
    (auto simp add: cast_vote_def Let_def has_voted_def create_document_def
      already_voted_update_one_voted find_one_update_one_voted_other
      split: if_splits sum.splits option.splits)

lemma objid_length: "objid s = Inr oid \<Longrightarrow> length s = 24"
  by (simp add: objid_def split: if_splits)

lemma objid_error: "objid s = Inl e \<Longrightarrow> e = Http400"
  by (simp add: objid_def split: if_splits)

lemma cast_vote_success_iff:
  "reply (cast_vote su now d p) = Inr () \<longleftrightarrow>
     (\<not> not_eligible (find_one (\<lambda>x. voter_nim x = req_nim p) (voter d)) \<and>
      \<not> has_voted d (req_nim p) \<and>
      (\<exists>oid c. objid (req_candidate_id p) = Inr oid \<and>
         find_one (\<lambda>c. cand_id c = oid) (candidate d) = Some c) \<and> su)"
  by (auto simp add: cast_vote_def Let_def has_voted_def create_document_def
      split: if_splits sum.splits option.splits)

lemma cast_vote_success_db:
  "reply (cast_vote su now d p) = Inr () \<Longrightarrow>
     db_after (cast_vote su now d p) =
       d\<lparr>vote := vote d @ [\<lparr>vote_candidate_id = req_candidate_id p\<rparr>],
         voterstatus := update_one_voted (req_nim p) now (voterstatus d)\<rparr>"
  by (auto simp add: cast_vote_def Let_def has_voted_def create_document_def
      split: if_splits sum.splits option.splits)


lemma has_voted_cast_vote_other:
  "req_nim p \<noteq> n \<Longrightarrow> has_voted (db_after (cast_vote su now d p)) n = has_voted d n"
  by (auto simp add: cast_vote_def Let_def has_voted_def create_document_def
      find_one_update_one_voted_other split: if_splits sum.splits option.splits)

lemma cast_vote_log_cases:
  "log (cast_vote su now d p) \<in>
     {[ReadVoter], [ReadVoter, ReadStatus], [ReadVoter, ReadStatus, ReadCandidate],
      [ReadVoter, ReadStatus, ReadCandidate, InsertVote],
      [ReadVoter, ReadStatus, ReadCandidate, InsertVote, UpsertStatus]}"
  by (simp add: cast_vote_def Let_def split: sum.splits option.splits)

lemma cast_vote_log_upsert:
  "UpsertStatus \<in> set (log (cast_vote su now d p)) \<longleftrightarrow> reply (cast_vote su now d p) = Inr ()"
  by (auto simp add: cast_vote_def Let_def create_document_def dest: objid_error
      split: sum.splits option.splits if_splits)

lemma cast_vote_log_insert:
  "InsertVote \<in> set (log (cast_vote su now d p)) \<longleftrightarrow>
     (\<not> not_eligible (find_one (\<lambda>x. voter_nim x = req_nim p) (voter d)) \<and>
      \<not> has_voted d (req_nim p) \<and>
      (\<exists>oid c. objid (req_candidate_id p) = Inr oid \<and>
         find_one (\<lambda>c. cand_id c = oid) (candidate d) = Some c))"
  by (auto simp add: cast_vote_def Let_def has_voted_def create_document_def
      split: sum.splits option.splits if_splits)

section \<open>The claims about \<open>cast_vote\<close>\<close>

text \<open>
  C7: a call that fails because the candidate does not exist (404) or because the voter
  is unknown or not eligible (403) leaves the whole database as it was: no ballot is
  created and no status record is changed.
\<close>

theorem cast_vote_rejected_leaves_state:
  assumes "reply (cast_vote su now d p) = Inl Http404 \<or> reply (cast_vote su now d p) = Inl Http403"
  shows "db_after (cast_vote su now d p) = d
       \<and> vote (db_after (cast_vote su now d p)) = vote d
       \<and> voterstatus (db_after (cast_vote su now d p)) = voterstatus d"
proof -
  from assms obtain e where "reply (cast_vote su now d p) = Inl e" by blast
  then have "db_after (cast_vote su now d p) = d" by (rule cast_vote_error_unchanged)
  then show ?thesis by simp
qed

theorem cast_vote_rejected_leaves_state_witness:
  "reply (cast_vote True ''t'' scenario_db \<lparr>req_nim = ''20200004'', req_candidate_id = c1\<rparr>)
     = Inl Http403
   \<and> db_after (cast_vote True ''t'' scenario_db \<lparr>req_nim = ''20200004'', req_candidate_id = c1\<rparr>)
     = scenario_db
   \<and> reply (cast_vote True ''t'' scenario_db \<lparr>req_nim = ''20200001'', req_candidate_id = c3\<rparr>)
     = Inl Http404
   \<and> db_after (cast_vote True ''t'' scenario_db \<lparr>req_nim = ''20200001'', req_candidate_id = c3\<rparr>)
     = scenario_db"
proof -
  have a: "reply (cast_vote True ''t'' scenario_db \<lparr>req_nim = ''20200004'', req_candidate_id = c1\<rparr>)
     = Inl Http403"
    by code_simp
  have b: "reply (cast_vote True ''t'' scenario_db \<lparr>req_nim = ''20200001'', req_candidate_id = c3\<rparr>)
     = Inl Http404"
    by code_simp
  from a b
    cast_vote_rejected_leaves_state [OF disjI2 [OF a]]
    cast_vote_rejected_leaves_state [OF disjI1 [OF b]]
  show ?thesis by simp
qed

text \<open>
  C10: a voter document that exists but has no \<open>eligible\<close> key counts as eligible
  (\<open>voter.get("eligible", True)\<close>): the call is not refused with 403, the advisory
  check reports the voter eligible, and with a known candidate, no earlier vote and a
  working store the vote is cast. A voter with no document at all is refused with 403.
\<close>

theorem missing_eligible_flag_counts_as_eligible:
  assumes "find_one (\<lambda>x. voter_nim x = req_nim p) (voter d) = Some v"
    and "voter_eligible v = None"
  shows "reply (cast_vote su now d p) \<noteq> Inl Http403
       \<and> resp_eligible (validate_voter d (req_nim p))
       \<and> (\<not> has_voted d (req_nim p) \<and> objid (req_candidate_id p) = Inr oid
            \<and> find_one (\<lambda>c. cand_id c = oid) (candidate d) = Some c \<and> su
          \<longrightarrow> reply (cast_vote su now d p) = Inr ()
              \<and> vote (db_after (cast_vote su now d p))
                  = vote d @ [\<lparr>vote_candidate_id = req_candidate_id p\<rparr>]
              \<and> has_voted (db_after (cast_vote su now d p)) (req_nim p))
       \<and> (find_one (\<lambda>x. voter_nim x = req_nim p) (voter d') = None
          \<longrightarrow> reply (cast_vote su now d' p) = Inl Http403)"
proof -
  have ne: "\<not> not_eligible (find_one (\<lambda>x. voter_nim x = req_nim p) (voter d))"
    using assms by (simp add: not_eligible_def)
  have 1: "reply (cast_vote su now d p) \<noteq> Inl Http403"
    using ne by (auto simp: cast_vote_def Let_def create_document_def
        dest: objid_error split: sum.splits option.splits)
  have 2: "resp_eligible (validate_voter d (req_nim p))"
    using assms ne by (simp add: validate_voter_def Let_def)
  have 3: "reply (cast_vote su now d p) = Inr ()
      \<and> vote (db_after (cast_vote su now d p)) = vote d @ [\<lparr>vote_candidate_id = req_candidate_id p\<rparr>]
      \<and> has_voted (db_after (cast_vote su now d p)) (req_nim p)"
    if h: "\<not> has_voted d (req_nim p)" "objid (req_candidate_id p) = Inr oid"
      "find_one (\<lambda>c. cand_id c = oid) (candidate d) = Some c" "su"
  proof -
    have ok: "reply (cast_vote su now d p) = Inr ()"
      using ne h by (simp add: cast_vote_success_iff)
    show ?thesis
      using ok cast_vote_success_db [OF ok]
      by (simp add: has_voted_def already_voted_update_one_voted)
  qed
  have 4: "reply (cast_vote su now d' p) = Inl Http403"
    if "find_one (\<lambda>x. voter_nim x = req_nim p) (voter d') = None"
    using that by (simp add: cast_vote_def Let_def not_eligible_def)
  from 1 2 3 4 show ?thesis by blast
qed

theorem missing_eligible_flag_counts_as_eligible_witness:
  "find_one (\<lambda>x. voter_nim x = ''20200003'') (voter scenario_db)
     = Some \<lparr>voter_nim = ''20200003'', voter_eligible = None\<rparr>
   \<and> reply (cast_vote True ''t'' scenario_db \<lparr>req_nim = ''20200003'', req_candidate_id = c1\<rparr>)
     = Inr ()
   \<and> vote (db_after (cast_vote True ''t'' scenario_db
        \<lparr>req_nim = ''20200003'', req_candidate_id = c1\<rparr>)) = [\<lparr>vote_candidate_id = c1\<rparr>]
   \<and> find_one (\<lambda>x. voter_nim x = ''99999999'') (voter scenario_db) = None
   \<and> reply (cast_vote True ''t'' scenario_db \<lparr>req_nim = ''99999999'', req_candidate_id = c1\<rparr>)
     = Inl Http403"
proof -
  let ?p = "\<lparr>req_nim = ''20200003'', req_candidate_id = c1\<rparr>"
  let ?q = "\<lparr>req_nim = ''99999999'', req_candidate_id = c1\<rparr>"
  have a: "find_one (\<lambda>x. voter_nim x = req_nim ?p) (voter scenario_db)
      = Some \<lparr>voter_nim = ''20200003'', voter_eligible = None\<rparr>"
    by (simp add: scenario_db_def)
  have b: "voter_eligible \<lparr>voter_nim = ''20200003'', voter_eligible = None\<rparr> = None"
    by simp
  have c: "\<not> has_voted scenario_db (req_nim ?p)"
    by (simp add: has_voted_def scenario_db_def already_voted_def)
  have e: "objid (req_candidate_id ?p) = Inr c1"
    by code_simp
  have f: "find_one (\<lambda>c. cand_id c = c1) (candidate scenario_db)
      = Some \<lparr>cand_id = c1, cand_number = 1, cand_president_name = ''A'', cand_vice_name = ''B''\<rparr>"
    by (simp add: scenario_db_def)
  have g: "find_one (\<lambda>x. voter_nim x = req_nim ?p) (voter (scenario_db\<lparr>voter := []\<rparr>)) = None"
    by simp
  have h: "find_one (\<lambda>x. voter_nim x = ''99999999'') (voter scenario_db) = None"
    by (simp add: scenario_db_def)
  have i: "reply (cast_vote True ''t'' scenario_db ?q) = Inl Http403"
    by code_simp
  from missing_eligible_flag_counts_as_eligible
    [OF a b, of True "''t''" c1 _ "scenario_db\<lparr>voter := []\<rparr>"] a c e f g h i
  show ?thesis by (simp add: scenario_db_def)
qed

text \<open>
  C5, as the code has it: eligibility is checked first, then the voter's status, and the
  candidate is resolved last. A well-formed candidate id that is absent from the
  registry gives 404 only for an eligible voter who has not voted; an unknown or
  ineligible voter gets 403 and a voter who has voted gets 409.
\<close>

theorem absent_candidate_reply:
  assumes "objid (req_candidate_id p) = Inr oid"
    and "find_one (\<lambda>c. cand_id c = oid) (candidate d) = None"
  shows "reply (cast_vote su now d p) =
     (if not_eligible (find_one (\<lambda>x. voter_nim x = req_nim p) (voter d)) then Inl Http403
      else if has_voted d (req_nim p) then Inl Http409
      else Inl Http404)"
  using assms by (simp add: cast_vote_def Let_def has_voted_def)

theorem absent_candidate_reply_witness:
  "objid (req_candidate_id \<lparr>req_nim = ''20200001'', req_candidate_id = c3\<rparr>) = Inr c3
   \<and> find_one (\<lambda>c. cand_id c = c3) (candidate scenario_db) = None
   \<and> reply (cast_vote True ''t'' scenario_db \<lparr>req_nim = ''20200001'', req_candidate_id = c3\<rparr>)
       = Inl Http404"
proof -
  let ?p = "\<lparr>req_nim = ''20200001'', req_candidate_id = c3\<rparr>"
  have a: "objid (req_candidate_id ?p) = Inr c3" by code_simp
  have b: "find_one (\<lambda>c. cand_id c = c3) (candidate scenario_db) = None" by code_simp
  have c: "\<not> not_eligible (find_one (\<lambda>x. voter_nim x = req_nim ?p) (voter scenario_db))"
    by code_simp
  have e: "\<not> has_voted scenario_db (req_nim ?p)" by code_simp
  from absent_candidate_reply [OF a b, of True "''t''"] a b c e show ?thesis by simp
qed

theorem absent_candidate_not_404_counterexample:
  "objid (req_candidate_id \<lparr>req_nim = ''99999999'', req_candidate_id = c3\<rparr>) = Inr c3
   \<and> find_one (\<lambda>c. cand_id c = c3) (candidate scenario_db) = None
   \<and> reply (cast_vote True ''t'' scenario_db \<lparr>req_nim = ''99999999'', req_candidate_id = c3\<rparr>)
       = Inl Http403
   \<and> reply (cast_vote True ''t'' scenario_db \<lparr>req_nim = ''99999999'', req_candidate_id = c3\<rparr>)
       \<noteq> Inl Http404"
  by code_simp

text \<open>
  C6, as the code has it: \<open>objid\<close> runs in step 3, after the voter and the status
  have been read. A request with a malformed candidate reference is refused with 400
  only when the voter is eligible and has not voted; an unknown or ineligible voter gets
  403 and a voter who has voted gets 409. The voter collection, and for an eligible
  voter the status collection, are read before the refusal; nothing is written.
\<close>

theorem malformed_candidate_reply:
  assumes "objid (req_candidate_id p) = Inl e"
  shows "reply (cast_vote su now d p) =
     (if not_eligible (find_one (\<lambda>x. voter_nim x = req_nim p) (voter d)) then Inl Http403
      else if has_voted d (req_nim p) then Inl Http409
      else Inl Http400)
   \<and> log (cast_vote su now d p) =
     (if not_eligible (find_one (\<lambda>x. voter_nim x = req_nim p) (voter d)) then [ReadVoter]
      else [ReadVoter, ReadStatus])
   \<and> db_after (cast_vote su now d p) = d"
  using assms objid_error [OF assms] by (simp add: cast_vote_def Let_def has_voted_def)

theorem malformed_candidate_reply_witness:
  "objid (req_candidate_id \<lparr>req_nim = ''20200001'', req_candidate_id = ''not-an-id''\<rparr>) = Inl Http400
   \<and> reply (cast_vote True ''t'' scenario_db \<lparr>req_nim = ''20200001'', req_candidate_id = ''not-an-id''\<rparr>)
       = Inl Http400
   \<and> log (cast_vote True ''t'' scenario_db \<lparr>req_nim = ''20200001'', req_candidate_id = ''not-an-id''\<rparr>)
       = [ReadVoter, ReadStatus]
   \<and> db_after (cast_vote True ''t'' scenario_db \<lparr>req_nim = ''20200001'', req_candidate_id = ''not-an-id''\<rparr>)
       = scenario_db"
proof -
  let ?p = "\<lparr>req_nim = ''20200001'', req_candidate_id = ''not-an-id''\<rparr>"
  have a: "objid (req_candidate_id ?p) = Inl Http400" by code_simp
  have c: "\<not> not_eligible (find_one (\<lambda>x. voter_nim x = req_nim ?p) (voter scenario_db))"
    by code_simp
  have e: "\<not> has_voted scenario_db (req_nim ?p)" by code_simp
  from malformed_candidate_reply [OF a, of True "''t''" scenario_db] a c e show ?thesis by simp
qed

theorem malformed_candidate_counterexample:
  "objid ''not-an-id'' = Inl Http400
   \<and> reply (cast_vote True ''t'' scenario_db \<lparr>req_nim = ''99999999'', req_candidate_id = ''not-an-id''\<rparr>)
       = Inl Http403
   \<and> log (cast_vote True ''t'' scenario_db \<lparr>req_nim = ''99999999'', req_candidate_id = ''not-an-id''\<rparr>)
       = [ReadVoter]
   \<and> reply (cast_vote True ''t'' scenario_db \<lparr>req_nim = ''20200001'', req_candidate_id = ''not-an-id''\<rparr>)
       = Inl Http400
   \<and> log (cast_vote True ''t'' scenario_db \<lparr>req_nim = ''20200001'', req_candidate_id = ''not-an-id''\<rparr>)
       = [ReadVoter, ReadStatus]"
  by code_simp


text \<open>
  C2, as the code has it: the ballot is inserted in step 4, before the status is marked
  in step 5. The insert is reached only after the eligibility, status and candidate
  checks have passed; the status update is reached only after the insert has succeeded.
  When the insert fails the call fails with an internal error and nothing has been
  written: the voter is still not marked as voted.
\<close>

theorem ballot_insert_then_status_update:
  "(InsertVote \<in> set (log (cast_vote su now d p)) \<longrightarrow>
      \<not> not_eligible (find_one (\<lambda>x. voter_nim x = req_nim p) (voter d))
      \<and> \<not> has_voted d (req_nim p)
      \<and> (\<exists>oid c. objid (req_candidate_id p) = Inr oid
            \<and> find_one (\<lambda>c. cand_id c = oid) (candidate d) = Some c))
   \<and> (UpsertStatus \<in> set (log (cast_vote su now d p)) \<longrightarrow>
      log (cast_vote su now d p) = [ReadVoter, ReadStatus, ReadCandidate, InsertVote, UpsertStatus]
      \<and> reply (cast_vote su now d p) = Inr ()
      \<and> vote (db_after (cast_vote su now d p)) = vote d @ [\<lparr>vote_candidate_id = req_candidate_id p\<rparr>]
      \<and> has_voted (db_after (cast_vote su now d p)) (req_nim p))
   \<and> (InsertVote \<in> set (log (cast_vote su now d p)) \<and> \<not> su \<longrightarrow>
      log (cast_vote su now d p) = [ReadVoter, ReadStatus, ReadCandidate, InsertVote]
      \<and> reply (cast_vote su now d p) = Inl Http500
      \<and> db_after (cast_vote su now d p) = d
      \<and> \<not> has_voted (db_after (cast_vote su now d p)) (req_nim p))"
proof (intro conjI impI)
  assume "InsertVote \<in> set (log (cast_vote su now d p))"
  then show "\<not> not_eligible (find_one (\<lambda>x. voter_nim x = req_nim p) (voter d))"
    and "\<not> has_voted d (req_nim p)"
    and "\<exists>oid c. objid (req_candidate_id p) = Inr oid
            \<and> find_one (\<lambda>c. cand_id c = oid) (candidate d) = Some c"
    by (simp_all add: cast_vote_log_insert)
next
  assume "UpsertStatus \<in> set (log (cast_vote su now d p))"
  then have ok: "reply (cast_vote su now d p) = Inr ()"
    by (simp add: cast_vote_log_upsert)
  then show "reply (cast_vote su now d p) = Inr ()" .
  from ok show "log (cast_vote su now d p) = [ReadVoter, ReadStatus, ReadCandidate, InsertVote, UpsertStatus]"
    by (auto simp add: cast_vote_def Let_def create_document_def
        split: sum.splits option.splits if_splits)
  from cast_vote_success_db [OF ok]
  show "vote (db_after (cast_vote su now d p)) = vote d @ [\<lparr>vote_candidate_id = req_candidate_id p\<rparr>]"
    and "has_voted (db_after (cast_vote su now d p)) (req_nim p)"
    by (simp_all add: has_voted_def already_voted_update_one_voted)
next
  assume h: "InsertVote \<in> set (log (cast_vote su now d p)) \<and> \<not> su"
  then have a: "\<not> not_eligible (find_one (\<lambda>x. voter_nim x = req_nim p) (voter d))"
    and b: "\<not> has_voted d (req_nim p)"
    and c: "\<exists>oid c. objid (req_candidate_id p) = Inr oid
            \<and> find_one (\<lambda>c. cand_id c = oid) (candidate d) = Some c"
    and e: "\<not> su"
    by (simp_all add: cast_vote_log_insert)
  from a b c e show "log (cast_vote su now d p) = [ReadVoter, ReadStatus, ReadCandidate, InsertVote]"
    and r: "reply (cast_vote su now d p) = Inl Http500"
    by (auto simp add: cast_vote_def Let_def has_voted_def create_document_def)
  from cast_vote_error_unchanged [OF r] show u: "db_after (cast_vote su now d p) = d" .
  from b u show "\<not> has_voted (db_after (cast_vote su now d p)) (req_nim p)" by simp
qed

theorem ballot_insert_then_status_update_witness:
  "InsertVote \<in> set (log (cast_vote False ''t'' scenario_db \<lparr>req_nim = ''20200001'', req_candidate_id = c1\<rparr>))
   \<and> reply (cast_vote False ''t'' scenario_db \<lparr>req_nim = ''20200001'', req_candidate_id = c1\<rparr>) = Inl Http500
   \<and> db_after (cast_vote False ''t'' scenario_db \<lparr>req_nim = ''20200001'', req_candidate_id = c1\<rparr>) = scenario_db
   \<and> UpsertStatus \<in> set (log (cast_vote True ''t'' scenario_db \<lparr>req_nim = ''20200001'', req_candidate_id = c1\<rparr>))
   \<and> vote (db_after (cast_vote True ''t'' scenario_db \<lparr>req_nim = ''20200001'', req_candidate_id = c1\<rparr>))
       = [\<lparr>vote_candidate_id = c1\<rparr>]
   \<and> has_voted (db_after (cast_vote True ''t'' scenario_db \<lparr>req_nim = ''20200001'', req_candidate_id = c1\<rparr>))
       ''20200001''"
proof -
  let ?p = "\<lparr>req_nim = ''20200001'', req_candidate_id = c1\<rparr>"
  have a: "InsertVote \<in> set (log (cast_vote False ''t'' scenario_db ?p))" by code_simp
  have b: "UpsertStatus \<in> set (log (cast_vote True ''t'' scenario_db ?p))" by code_simp
  have v: "vote scenario_db = []" by (simp add: scenario_db_def)
  from ballot_insert_then_status_update [of False "''t''" scenario_db ?p]
    ballot_insert_then_status_update [of True "''t''" scenario_db ?p] a b v
  show ?thesis by simp
qed

theorem ballot_insert_before_status_counterexample:
  "log (cast_vote False ''t'' scenario_db \<lparr>req_nim = ''20200001'', req_candidate_id = c1\<rparr>)
     = [ReadVoter, ReadStatus, ReadCandidate, InsertVote]
   \<and> reply (cast_vote False ''t'' scenario_db \<lparr>req_nim = ''20200001'', req_candidate_id = c1\<rparr>)
     = Inl Http500
   \<and> \<not> has_voted (db_after (cast_vote False ''t'' scenario_db
          \<lparr>req_nim = ''20200001'', req_candidate_id = c1\<rparr>)) ''20200001''
   \<and> log (cast_vote True ''t'' scenario_db \<lparr>req_nim = ''20200001'', req_candidate_id = c1\<rparr>)
     = [ReadVoter, ReadStatus, ReadCandidate, InsertVote, UpsertStatus]"
  by code_simp

text \<open>
  C3: the ballot that a successful call appends is built from the candidate reference
  alone. Its one field holds the 24 characters of the candidate id, so it differs from
  every voter identifier (at most 20 characters), and a call for another voter with the
  same candidate reference appends the same ballot.
\<close>

theorem ballot_holds_no_voter_identifier:
  assumes "reply (cast_vote su now d p) = Inr ()"
  shows "vote (db_after (cast_vote su now d p)) = vote d @ [\<lparr>vote_candidate_id = req_candidate_id p\<rparr>]
   \<and> (\<forall>n. length n \<le> 20 \<longrightarrow> vote_candidate_id (last (vote (db_after (cast_vote su now d p)))) \<noteq> n)
   \<and> (vote_request_valid p \<longrightarrow>
        vote_candidate_id (last (vote (db_after (cast_vote su now d p)))) \<noteq> req_nim p)
   \<and> (reply (cast_vote su' now' d (p\<lparr>req_nim := n'\<rparr>)) = Inr () \<longrightarrow>
        vote (db_after (cast_vote su' now' d (p\<lparr>req_nim := n'\<rparr>)))
          = vote (db_after (cast_vote su now d p)))"
proof -
  from assms obtain oid where "objid (req_candidate_id p) = Inr oid"
    by (auto simp: cast_vote_success_iff)
  then have len: "length (req_candidate_id p) = 24" by (rule objid_length)
  have v: "vote (db_after (cast_vote su now d p)) = vote d @ [\<lparr>vote_candidate_id = req_candidate_id p\<rparr>]"
    using cast_vote_success_db [OF assms] by simp
  have "vote (db_after (cast_vote su' now' d (p\<lparr>req_nim := n'\<rparr>)))
          = vote (db_after (cast_vote su now d p))"
    if ok: "reply (cast_vote su' now' d (p\<lparr>req_nim := n'\<rparr>)) = Inr ()"
    using cast_vote_success_db [OF ok] v by simp
  with v len show ?thesis by (auto simp: vote_request_valid_def)
qed

theorem ballot_holds_no_voter_identifier_witness:
  "reply (cast_vote True ''t1'' scenario_db \<lparr>req_nim = ''20200001'', req_candidate_id = c1\<rparr>) = Inr ()
   \<and> reply (cast_vote True ''t2'' scenario_db \<lparr>req_nim = ''20200002'', req_candidate_id = c1\<rparr>) = Inr ()
   \<and> vote (db_after (cast_vote True ''t1'' scenario_db \<lparr>req_nim = ''20200001'', req_candidate_id = c1\<rparr>))
       = [\<lparr>vote_candidate_id = c1\<rparr>]
   \<and> vote (db_after (cast_vote True ''t2'' scenario_db \<lparr>req_nim = ''20200002'', req_candidate_id = c1\<rparr>))
       = [\<lparr>vote_candidate_id = c1\<rparr>]
   \<and> vote_candidate_id (last (vote (db_after (cast_vote True ''t1'' scenario_db
         \<lparr>req_nim = ''20200001'', req_candidate_id = c1\<rparr>)))) \<noteq> ''20200001''"
proof -
  let ?p = "\<lparr>req_nim = ''20200001'', req_candidate_id = c1\<rparr>"
  have a: "reply (cast_vote True ''t1'' scenario_db ?p) = Inr ()" by code_simp
  have b: "reply (cast_vote True ''t2'' scenario_db (?p\<lparr>req_nim := ''20200002''\<rparr>)) = Inr ()"
    by code_simp
  have v: "vote scenario_db = []" by (simp add: scenario_db_def)
  from ballot_holds_no_voter_identifier [OF a, of True "''t2''" "''20200002''"] a b v
  show ?thesis by (simp add: c1_def)
qed

text \<open>
  C8: no operation of the engine takes a voter's \<open>has_voted\<close> flag back. A voter who
  counts as having voted still does after any sequence of validate, cast-vote and
  tally operations; and a single operation moves a voter from not voted to voted only
  when it is a successful \<open>cast_vote\<close> for that voter.
\<close>

theorem has_voted_never_reverts:
  "(has_voted d n \<longrightarrow> has_voted (foldl apply_operation d ops) n)
   \<and> (\<not> has_voted d n \<and> has_voted (apply_operation d op) n \<longrightarrow>
        (\<exists>su now p. op = CastVote su now p \<and> req_nim p = n \<and> reply (cast_vote su now d p) = Inr ()))"
proof (intro conjI impI)
  have step: "has_voted (apply_operation d' x) n" if "has_voted d' n" for d' x
    using that by (cases x) (simp_all add: has_voted_cast_vote)
  show "has_voted (foldl apply_operation d ops) n" if "has_voted d n"
    using that by (induction ops arbitrary: d) (simp_all add: step)
next
  assume h: "\<not> has_voted d n \<and> has_voted (apply_operation d op) n"
  show "\<exists>su now p. op = CastVote su now p \<and> req_nim p = n \<and> reply (cast_vote su now d p) = Inr ()"
  proof (cases op)
    case (CastVote su now p)
    have "req_nim p = n"
      using h CastVote has_voted_cast_vote_other [of p n su now d] by auto
    moreover have "reply (cast_vote su now d p) = Inr ()"
    proof (cases "reply (cast_vote su now d p)")
      case (Inl e)
      from cast_vote_error_unchanged [OF Inl] h CastVote show ?thesis by simp
    next
      case (Inr u)
      then show ?thesis by simp
    qed
    ultimately show ?thesis using CastVote by blast
  qed (use h in simp_all)
qed

theorem has_voted_never_reverts_witness:
  "\<not> has_voted scenario_db ''20200001''
   \<and> has_voted (apply_operation scenario_db (CastVote True ''t0'' \<lparr>req_nim = ''20200001'', req_candidate_id = c1\<rparr>)) ''20200001''
   \<and> has_voted voted_db ''20200001''
   \<and> has_voted (foldl apply_operation voted_db
        [Validate ''20200001'', CastVote True ''t1'' \<lparr>req_nim = ''20200001'', req_candidate_id = c2\<rparr>,
         Tally, CastVote True ''t2'' \<lparr>req_nim = ''20200002'', req_candidate_id = c2\<rparr>]) ''20200001''"
proof -
  have a: "\<not> has_voted scenario_db ''20200001''" by code_simp
  have b: "has_voted voted_db ''20200001''" by code_simp
  have c: "has_voted (apply_operation scenario_db (CastVote True ''t0'' \<lparr>req_nim = ''20200001'', req_candidate_id = c1\<rparr>)) ''20200001''" by code_simp
  from has_voted_never_reverts [of voted_db "''20200001''"
      "[Validate ''20200001'', CastVote True ''t1'' \<lparr>req_nim = ''20200001'', req_candidate_id = c2\<rparr>,
         Tally, CastVote True ''t2'' \<lparr>req_nim = ''20200002'', req_candidate_id = c2\<rparr>]"] a b c
  show ?thesis by blast
qed

text \<open>
  C1 on the code: two calls for the voter 20200002 run at the same time. Each reads the
  voter, the status and the candidate (three steps) before either writes; both then
  insert a ballot and mark the status. Both reply success and the ballot collection
  holds two ballots for the one voter. Run one after the other, the second call is
  refused with 409.
\<close>

theorem concurrent_calls_both_succeed:
  "interleave
     \<lparr>call_store_up = True, call_now = ''t1'',
      call_payload = \<lparr>req_nim = ''20200002'', req_candidate_id = c1\<rparr>\<rparr>
     \<lparr>call_store_up = True, call_now = ''t2'',
      call_payload = \<lparr>req_nim = ''20200002'', req_candidate_id = c2\<rparr>\<rparr>
     [False, False, False, True, True, True, False, False, True, True]
     (scenario_db, AtVoter, AtVoter)
   = (scenario_db
       \<lparr>voterstatus := [\<lparr>status_nim = ''20200002'', status_has_voted = Some True,
                         status_voted_at = Some ''t2''\<rparr>],
        vote := [\<lparr>vote_candidate_id = c1\<rparr>, \<lparr>vote_candidate_id = c2\<rparr>]\<rparr>,
      Finished (Inr ()), Finished (Inr ()))
   \<and> interleave
     \<lparr>call_store_up = True, call_now = ''t1'',
      call_payload = \<lparr>req_nim = ''20200002'', req_candidate_id = c1\<rparr>\<rparr>
     \<lparr>call_store_up = True, call_now = ''t2'',
      call_payload = \<lparr>req_nim = ''20200002'', req_candidate_id = c2\<rparr>\<rparr>
     [False, False, False, False, False, True, True, True, True, True]
     (scenario_db, AtVoter, AtVoter)
   = (scenario_db
       \<lparr>voterstatus := [\<lparr>status_nim = ''20200002'', status_has_voted = Some True,
                         status_voted_at = Some ''t1''\<rparr>],
        vote := [\<lparr>vote_candidate_id = c1\<rparr>]\<rparr>,
      Finished (Inr ()), Finished (Inl Http409))"
  by code_simp

section \<open>Properties of double rounding\<close>

lemma pow2_powi: "pow2 k = power_int 2 k"
  by (simp add: pow2_def power_int_def field_simps)

lemma pow2_pos: "0 < pow2 k"
  by (simp add: pow2_powi)

lemma pow2_add: "pow2 (i + j) = pow2 i * pow2 j"
  by (simp add: pow2_powi power_int_add)

lemma pow2_diff: "pow2 (i - j) = pow2 i / pow2 j"
  by (simp add: pow2_powi power_int_diff)

lemma pow2_mono: "i \<le> j \<Longrightarrow> pow2 i \<le> pow2 j"
  by (simp add: pow2_powi power_int_increasing)

lemma pow2_less_cancel: "pow2 i < pow2 j \<Longrightarrow> i < j"
  using pow2_mono [of j i] by (cases "i < j") auto

lemma pow2_nat: "0 \<le> k \<Longrightarrow> pow2 k = 2 ^ nat k"
  by (simp add: pow2_def)


lemma round_half_even_le:
  assumes "x \<le> of_int m"
  shows "round_half_even x \<le> m"
proof -
  have n: "\<lfloor>x\<rfloor> \<le> m" using assms by (simp add: floor_le_iff)
  have "\<lfloor>x\<rfloor> + 1 \<le> m" if "0 < x - of_int \<lfloor>x\<rfloor>"
  proof -
    from that assms have "of_int \<lfloor>x\<rfloor> < (of_int m :: rat)" by linarith
    then show ?thesis by simp
  qed
  with n show ?thesis
    unfolding round_half_even_def Let_def by (auto split: if_splits)
qed

lemma round_half_even_nonneg: "0 \<le> x \<Longrightarrow> 0 \<le> round_half_even x"
  unfolding round_half_even_def Let_def
  by (auto split: if_splits)

lemma floor_log2_lower:
  assumes "0 < x"
  shows "pow2 (floor_log2 x) \<le> x"
proof -
  obtain a b where q: "quotient_of x = (a, b)" by (cases "quotient_of x")
  then have b: "0 < b" and x: "x = of_int a / of_int b"
    using quotient_of_denom_pos quotient_of_div by auto
  from assms b x have a: "0 < a" by (simp add: zero_less_divide_iff)
  let ?k = "bitlen a - bitlen b"
  have "pow2 (?k - 1) \<le> x"
  proof -
    have la: "1 \<le> bitlen a" and lb: "1 \<le> bitlen b"
      using a b bitlen_eq_zero_iff [of a] bitlen_eq_zero_iff [of b]
        bitlen_nonneg [of a] bitlen_nonneg [of b] by linarith+
    have "(2::int) ^ nat (bitlen a - 1) \<le> a" using bitlen_bounds [OF a] by simp
    then have "(of_int ((2::int) ^ nat (bitlen a - 1)) :: rat) \<le> of_int a"
      by (simp only: of_int_le_iff)
    then have 1: "pow2 (bitlen a - 1) \<le> of_int a"
      using la by (simp add: pow2_nat)
    have "b < (2::int) ^ nat (bitlen b)" using bitlen_bounds [OF b] by simp
    then have "(of_int b :: rat) < of_int ((2::int) ^ nat (bitlen b))"
      by (simp only: of_int_less_iff)
    then have 2: "of_int b < pow2 (bitlen b)"
      using lb by (simp add: pow2_nat)
    have "pow2 (?k - 1) = pow2 (bitlen a - 1) / pow2 (bitlen b)"
      using pow2_diff [of "bitlen a - 1" "bitlen b"] by (simp add: algebra_simps)
    also have "\<dots> \<le> of_int a / pow2 (bitlen b)"
      using 1 pow2_pos [of "bitlen b"] by (simp add: divide_right_mono)
    also have "\<dots> \<le> of_int a / of_int b"
      using 2 a b by (intro divide_left_mono) (simp_all add: pow2_pos)
    finally show ?thesis using x by simp
  qed
  then show ?thesis
    by (simp add: floor_log2_def q Let_def)
qed

lemma round_double_nonneg:
  assumes "0 \<le> x"
  shows "0 \<le> round_double x"
proof (cases "x = 0")
  case True
  then show ?thesis by (simp add: round_double_def)
next
  case False
  let ?u = "pow2 (max (floor_log2 \<bar>x\<bar> - 52) (- 1074))"
  have "0 \<le> x / ?u" using assms pow2_pos [of "max (floor_log2 \<bar>x\<bar> - 52) (- 1074)"] by simp
  then have "0 \<le> round_half_even (x / ?u)" by (rule round_half_even_nonneg)
  then show ?thesis
    using False pow2_pos [of "max (floor_log2 \<bar>x\<bar> - 52) (- 1074)"]
    by (simp add: round_double_def Let_def)
qed

lemma round_double_le_int:
  assumes "0 \<le> x" and "x \<le> of_int n" and "n < 2 ^ 53"
  shows "round_double x \<le> of_int n"
proof (cases "x = 0")
  case True
  with assms show ?thesis by (simp add: round_double_def)
next
  case False
  with assms have pos: "0 < x" by simp
  let ?e = "floor_log2 \<bar>x\<bar>"
  let ?k = "max (?e - 52) (- 1074)"
  let ?u = "pow2 ?k"
  have "pow2 ?e \<le> x" using floor_log2_lower [OF pos] pos by simp
  also have "x \<le> of_int n" by fact
  also have "(of_int n :: rat) < of_int (2 ^ 53)" using assms(3) by (simp only: of_int_less_iff)
  also have "(of_int (2 ^ 53) :: rat) = pow2 53" by (simp add: pow2_def)
  finally have "?e < 53" by (rule pow2_less_cancel)
  then have k: "?k \<le> 0" by simp
  then have u: "?u = 1 / 2 ^ nat (- ?k)"
    by (cases "?k = 0") (simp_all add: pow2_def)
  have "x / ?u \<le> of_int n / ?u"
    using assms(2) pow2_pos [of ?k] by (simp add: divide_right_mono)
  also have "of_int n / ?u = of_int (n * 2 ^ nat (- ?k))"
    by (simp add: u)
  finally have "round_half_even (x / ?u) \<le> n * 2 ^ nat (- ?k)"
    by (rule round_half_even_le)
  then have "(of_int (round_half_even (x / ?u)) :: rat) \<le> of_int (n * 2 ^ nat (- ?k))"
    by (simp only: of_int_le_iff)
  then have "of_int (round_half_even (x / ?u)) * ?u \<le> of_int (n * 2 ^ nat (- ?k)) * ?u"
    using pow2_pos [of ?k] by (simp add: mult_right_mono)
  also have "of_int (n * 2 ^ nat (- ?k)) * ?u = of_int n"
    by (simp add: u)
  finally show ?thesis using False by (simp add: round_double_def Let_def)
qed

lemma py_round2_bounds:
  assumes "0 \<le> x" and "x \<le> 100"
  shows "0 \<le> py_round2 x \<and> py_round2 x \<le> 100"
proof -
  have "0 \<le> round_half_even (x * 100)"
    using assms by (intro round_half_even_nonneg) simp
  moreover have "round_half_even (x * 100) \<le> 10000"
    using assms by (intro round_half_even_le) simp
  ultimately have a: "0 \<le> (of_int (round_half_even (x * 100)) :: rat) / 100"
    and b: "(of_int (round_half_even (x * 100)) :: rat) / 100 \<le> of_int 100"
    by simp_all
  from round_double_nonneg [OF a] round_double_le_int [OF a b]
  show ?thesis by (simp add: py_round2_def)
qed

lemma percentage_bounds:
  assumes "0 \<le> c" and "c \<le> t" and "0 < t"
  shows "0 \<le> py_round2 (float_mul (float_div c t) 100)
       \<and> py_round2 (float_mul (float_div c t) 100) \<le> 100"
proof -
  have a: "0 \<le> (of_int c :: rat) / of_int t" using assms by simp
  have b: "(of_int c :: rat) / of_int t \<le> of_int 1" using assms by simp
  have q0: "0 \<le> float_div c t" using round_double_nonneg [OF a] by (simp add: float_div_def)
  have q1: "float_div c t \<le> 1" using round_double_le_int [OF a b] by (simp add: float_div_def)
  have c: "0 \<le> float_div c t * 100" using q0 by simp
  have d: "float_div c t * 100 \<le> of_int 100" using q1 by simp
  have "0 \<le> float_mul (float_div c t) 100" and "float_mul (float_div c t) 100 \<le> 100"
    using round_double_nonneg [OF c] round_double_le_int [OF c d] by (simp_all add: float_mul_def)
  then show ?thesis by (rule py_round2_bounds)
qed

lemma round_half_even_error: "\<bar>of_int (round_half_even x) - x\<bar> \<le> (1 / 2 :: rat)"
proof -
  have "of_int \<lfloor>x\<rfloor> \<le> x" and "x < of_int \<lfloor>x\<rfloor> + 1" by linarith+
  then show ?thesis
    unfolding round_half_even_def Let_def by (auto split: if_splits)
qed

lemma round_double_error:
  assumes "0 \<le> x" and "x < 128"
  shows "\<bar>round_double x - x\<bar> \<le> pow2 (- 47)"
proof (cases "x = 0")
  case True
  then show ?thesis using pow2_pos [of "- 47"] by (simp add: round_double_def)
next
  case False
  with assms have pos: "0 < x" by simp
  let ?e = "floor_log2 \<bar>x\<bar>"
  let ?k = "max (?e - 52) (- 1074)"
  let ?u = "pow2 ?k"
  have "pow2 ?e \<le> x" using floor_log2_lower [OF pos] pos by simp
  also have "x < pow2 7" using assms(2) by (simp add: pow2_def)
  finally have "?e < 7" by (rule pow2_less_cancel)
  then have "?k \<le> - 46" by simp
  then have u: "?u \<le> pow2 (- 46)" by (rule pow2_mono)
  have upos: "0 < ?u" by (rule pow2_pos)
  have "round_double x - x = (of_int (round_half_even (x / ?u)) - x / ?u) * ?u"
    using False upos by (simp add: round_double_def Let_def field_simps)
  then have "\<bar>round_double x - x\<bar> = \<bar>of_int (round_half_even (x / ?u)) - x / ?u\<bar> * ?u"
    using upos by (simp add: abs_mult)
  also have "\<dots> \<le> (1 / 2) * ?u"
    using round_half_even_error [of "x / ?u"] upos by (intro mult_right_mono) simp_all
  also have "\<dots> \<le> (1 / 2) * pow2 (- 46)" using u by simp
  also have "\<dots> = pow2 (- 47)" by (simp add: pow2_def)
  finally show ?thesis .
qed

lemma error_chain:
  fixes x q1 q2 k p e :: rat
  assumes "\<bar>q1 - x\<bar> \<le> e" and "\<bar>q2 - q1 * 100\<bar> \<le> e"
    and "\<bar>k - q2 * 100\<bar> \<le> 1 / 2" and "\<bar>p - k / 100\<bar> \<le> e"
  shows "\<bar>p - 100 * x\<bar> \<le> 1 / 200 + 102 * e"
  using assms by (simp only: abs_le_iff) (auto simp: field_simps)

lemma percentage_error:
  assumes "0 \<le> c" and "c \<le> t" and "0 < t"
  shows "\<bar>py_round2 (float_mul (float_div c t) 100) - 100 * of_int c / of_int t\<bar>
     \<le> 1 / 200 + 1 / 10 ^ 12"
proof -
  let ?x = "(of_int c :: rat) / of_int t"
  let ?q1 = "float_div c t"
  let ?q2 = "float_mul ?q1 100"
  let ?k = "round_half_even (?q2 * 100)"
  have a: "0 \<le> ?x" using assms by simp
  have b: "?x \<le> of_int 1" using assms by simp
  have q1: "0 \<le> ?q1" "?q1 \<le> 1"
    using round_double_nonneg [OF a] round_double_le_int [OF a b] by (simp_all add: float_div_def)
  have e1: "\<bar>?q1 - ?x\<bar> \<le> pow2 (- 47)"
    unfolding float_div_def using a b by (intro round_double_error) simp_all
  have c0: "0 \<le> ?q1 * 100" using q1 by simp
  have c1: "?q1 * 100 \<le> of_int 100" using q1 by simp
  have q2: "0 \<le> ?q2" "?q2 \<le> 100"
    using round_double_nonneg [OF c0] round_double_le_int [OF c0 c1] by (simp_all add: float_mul_def)
  have e2: "\<bar>?q2 - ?q1 * 100\<bar> \<le> pow2 (- 47)"
    unfolding float_mul_def using c0 c1 by (intro round_double_error) simp_all
  have k0: "0 \<le> ?k" using q2 by (intro round_half_even_nonneg) simp
  have k1: "?k \<le> 10000" using q2 by (intro round_half_even_le) simp
  have e3: "\<bar>of_int ?k - ?q2 * 100\<bar> \<le> (1 / 2 :: rat)" by (rule round_half_even_error)
  have e4: "\<bar>py_round2 ?q2 - of_int ?k / 100\<bar> \<le> pow2 (- 47)"
    unfolding py_round2_def using k0 k1 by (intro round_double_error) simp_all
  have p: "pow2 (- 47) = 1 / 140737488355328" by (simp add: pow2_def)
  have "\<bar>py_round2 ?q2 - 100 * ?x\<bar> \<le> 1 / 200 + 102 * pow2 (- 47)"
    using e1 e2 e3 e4 by (rule error_chain)
  also have "\<dots> \<le> 1 / 200 + 1 / 10 ^ 12" by (simp add: p)
  finally show ?thesis by (simp add: field_simps)
qed

section \<open>Properties of \<open>get_results\<close>\<close>

lemma map_of_foldl_update:
  "map_of (foldl (\<lambda>m row. AList.update (fst row) (snd row) m) m rows) k =
     (case map_of (rev rows) k of Some v \<Rightarrow> Some v | None \<Rightarrow> map_of m k)"
  by (induction rows arbitrary: m) (auto simp: update_conv' map_add_def split: option.splits)

lemma distinct_foldl_update:
  "distinct (map fst m) \<Longrightarrow>
     distinct (map fst (foldl (\<lambda>m row. AList.update (fst row) (snd row) m) m rows))"
  by (induction rows arbitrary: m) (simp_all add: distinct_update)

lemma set_fst_foldl_update:
  "fst ` set (foldl (\<lambda>m row. AList.update (fst row) (snd row) m) m rows) =
     fst ` set m \<union> fst ` set rows"
proof -
  have "dom (map_of (foldl (\<lambda>m row. AList.update (fst row) (snd row) m) m rows)) =
      dom (map_of m) \<union> dom (map_of (rev rows))"
    by (auto simp: map_of_foldl_update dom_def split: option.splits)
  then show ?thesis by (simp add: dom_map_of_conv_image_fst)
qed

lemma foldl_update_zero:
  "foldl (\<lambda>m c. AList.update (f c) (0::int) m) m cs =
     foldl (\<lambda>m row. AList.update (fst row) (snd row) m) m (map (\<lambda>c. (f c, 0)) cs)"
  by (induction cs arbitrary: m) simp_all

lemma sum_list_snd_distinct:
  "distinct (map fst al) \<Longrightarrow>
     sum_list (map snd al) = (\<Sum>k\<in>fst ` set al. case map_of al k of None \<Rightarrow> (0::int) | Some v \<Rightarrow> v)"
proof (induction al)
  case Nil
  then show ?case by simp
next
  case (Cons p al)
  obtain k v where p: "p = (k, v)" by (cases p)
  from Cons.prems p have k: "k \<notin> fst ` set al" and d: "distinct (map fst al)" by auto
  have "(\<Sum>j\<in>fst ` set al. case map_of (p # al) j of None \<Rightarrow> (0::int) | Some v \<Rightarrow> v)
      = (\<Sum>j\<in>fst ` set al. case map_of al j of None \<Rightarrow> 0 | Some v \<Rightarrow> v)"
    using k by (intro sum.cong) (auto simp: p)
  then show ?case
    using k Cons.IH [OF d] by (simp add: p)
qed

lemma sum_count_list_distinct:
  "distinct ks \<Longrightarrow>
     (\<Sum>k\<leftarrow>ks. int (count_list xs k)) = int (length (filter (\<lambda>x. x \<in> set ks) xs))"
proof (induction xs)
  case Nil
  then show ?case by simp
next
  case (Cons x xs)
  have "(\<Sum>k\<leftarrow>ks. int (count_list (x # xs) k))
      = (\<Sum>k\<leftarrow>ks. int (count_list xs k)) + (\<Sum>k\<leftarrow>ks. if x = k then 1 else 0)"
    by (induction ks) auto
  also have "(\<Sum>k\<leftarrow>ks. if x = k then 1 else 0) = (if x \<in> set ks then 1 else (0::int))"
    using Cons.prems by (simp add: sum_list_distinct_conv_sum_set)
  finally show ?case using Cons.IH [OF Cons.prems] by simp
qed

lemma sum_list_map_insort_key:
  "sum_list (map f (insort_key k x xs)) = (f x :: int) + sum_list (map f xs)"
  by (induction xs) simp_all

lemma sum_list_map_sort_key:
  "sum_list (map f (sort_key k xs)) = (sum_list (map f xs) :: int)"
  by (induction xs) (simp_all add: sum_list_map_insort_key)


lemma map_of_group_by_candidate_id:
  "map_of (rev (group_by_candidate_id vs)) k =
     (if k \<in> set (map vote_candidate_id vs)
      then Some (int (count_list (map vote_candidate_id vs) k)) else None)"
  by (simp add: group_by_candidate_id_def Let_def rev_map map_of_map_restrict restrict_map_def)

lemma map_of_counts_map:
  "map_of (counts_map cs vs) k =
     (if k \<in> set (map vote_candidate_id vs)
      then Some (int (count_list (map vote_candidate_id vs) k))
      else if k \<in> cand_id ` set cs then Some 0 else None)"
proof -
  have "map_of (rev (map (\<lambda>c. (cand_id c, 0::int)) cs)) k =
      (if k \<in> cand_id ` set cs then Some 0 else None)"
    by (induction cs) (auto simp: map_add_def split: option.splits)
  then show ?thesis
    unfolding counts_map_def foldl_update_zero map_of_foldl_update map_of_group_by_candidate_id
    by simp
qed

lemma count_of_counts_map:
  "(case map_of (counts_map cs vs) k of None \<Rightarrow> 0 | Some n \<Rightarrow> n) =
     int (count_list (map vote_candidate_id vs) k)"
  by (simp add: map_of_counts_map count_list_0_iff)

lemma distinct_counts_map: "distinct (map fst (counts_map cs vs))"
  unfolding counts_map_def foldl_update_zero
  by (intro distinct_foldl_update) simp

lemma keys_counts_map:
  "fst ` set (counts_map cs vs) = cand_id ` set cs \<union> set (map vote_candidate_id vs)"
proof -
  have a: "fst ` set (map (\<lambda>c. (cand_id c, 0::int)) cs) = cand_id ` set cs"
    by (simp add: image_image)
  have b: "fst ` set (group_by_candidate_id vs) = set (map vote_candidate_id vs)"
    by (simp add: group_by_candidate_id_def Let_def image_image)
  show ?thesis
    unfolding counts_map_def foldl_update_zero set_fst_foldl_update a b by simp
qed

lemma sum_counts_map:
  "sum_list (map snd (counts_map cs vs)) = int (length vs)"
proof -
  let ?ids = "map vote_candidate_id vs"
  have "sum_list (map snd (counts_map cs vs)) =
      (\<Sum>k\<in>cand_id ` set cs \<union> set ?ids. int (count_list ?ids k))"
    unfolding sum_list_snd_distinct [OF distinct_counts_map] keys_counts_map count_of_counts_map ..
  also have "\<dots> = int (\<Sum>k\<in>cand_id ` set cs \<union> set ?ids. count_list ?ids k)"
    by simp
  also have "(\<Sum>k\<in>cand_id ` set cs \<union> set ?ids. count_list ?ids k) = length ?ids"
    by (intro sum_count_set) auto
  finally show ?thesis by simp
qed

lemma get_results_eq:
  "get_results d =
     \<lparr>total_votes = int (length (vote d)),
      results = sort_key item_number (map (\<lambda>c.
        \<lparr>item_candidate_id = cand_id c, item_number = cand_number c,
         item_president_name = cand_president_name c, item_vice_name = cand_vice_name c,
         item_count = int (count_list (map vote_candidate_id (vote d)) (cand_id c)),
         item_percentage =
           (if vote d = [] then 0
            else py_round2 (float_mul
                   (float_div (int (count_list (map vote_candidate_id (vote d)) (cand_id c)))
                      (int (length (vote d)))) 100))\<rparr>) (candidate d))\<rparr>"
proof -
  have z: "py_round2 0 = 0"
    by (simp add: py_round2_def round_half_even_def round_double_def)
  show ?thesis
    unfolding get_results_def Let_def sum_counts_map count_of_counts_map
    by (cases "vote d = []") (simp_all add: z)
qed

text \<open>
  Percentages as Python computes them: 75.0 and 25.0 are exact; 1/3 gives the double
  written 33.33; 1/800 gives 0.125 exactly, a tie, which goes to the even neighbour 0.12.
\<close>

lemma pct_3_4: "py_round2 (float_mul (float_div 3 4) 100) = 75"
  by code_simp

lemma pct_1_4: "py_round2 (float_mul (float_div 1 4) 100) = 25"
  by code_simp

lemma pct_1_800:
  "float_mul (float_div 1 800) 100 = 1 / 8
   \<and> py_round2 (float_mul (float_div 1 800) 100) = 1080863910568919 / 9007199254740992"
  by code_simp

lemma set_results:
  "set (results (get_results d)) =
     (\<lambda>c. \<lparr>item_candidate_id = cand_id c, item_number = cand_number c,
         item_president_name = cand_president_name c, item_vice_name = cand_vice_name c,
         item_count = int (count_list (map vote_candidate_id (vote d)) (cand_id c)),
         item_percentage =
           (if vote d = [] then 0
            else py_round2 (float_mul
                   (float_div (int (count_list (map vote_candidate_id (vote d)) (cand_id c)))
                      (int (length (vote d)))) 100))\<rparr>) ` set (candidate d)"
  by (simp add: get_results_eq)

lemma total_votes_eq: "total_votes (get_results d) = int (length (vote d))"
  by (simp add: get_results_eq)

lemma sum_item_count:
  assumes "distinct (map cand_id (candidate d))"
  shows "sum_list (map item_count (results (get_results d))) =
     int (length (filter (\<lambda>v. vote_candidate_id v \<in> cand_id ` set (candidate d)) (vote d)))"
proof -
  let ?ids = "map vote_candidate_id (vote d)"
  have "sum_list (map item_count (results (get_results d))) =
      (\<Sum>k\<leftarrow>map cand_id (candidate d). int (count_list ?ids k))"
    by (simp add: get_results_eq sum_list_map_sort_key comp_def)
  also have "\<dots> = int (length (filter (\<lambda>x. x \<in> set (map cand_id (candidate d))) ?ids))"
    by (rule sum_count_list_distinct [OF assms])
  also have "\<dots> = int (length (filter (\<lambda>v. vote_candidate_id v \<in> cand_id ` set (candidate d)) (vote d)))"
    by (simp add: filter_map comp_def)
  finally show ?thesis .
qed

lemma item_percentage_bounds:
  "\<forall>i\<in>set (results (get_results d)). 0 \<le> item_percentage i \<and> item_percentage i \<le> 100"
proof -
  have "0 \<le> py_round2 (float_mul (float_div (int (count_list (map vote_candidate_id (vote d)) k))
            (int (length (vote d)))) 100)
      \<and> py_round2 (float_mul (float_div (int (count_list (map vote_candidate_id (vote d)) k))
            (int (length (vote d)))) 100) \<le> 100"
    if "vote d \<noteq> []" for k
  proof -
    have "count_list (map vote_candidate_id (vote d)) k \<le> length (vote d)"
      using count_le_length [of "map vote_candidate_id (vote d)" k] by simp
    then have "0 \<le> int (count_list (map vote_candidate_id (vote d)) k)"
      and "int (count_list (map vote_candidate_id (vote d)) k) \<le> int (length (vote d))"
      and "0 < int (length (vote d))"
      using that by simp_all
    then show ?thesis by (rule percentage_bounds)
  qed
  then show ?thesis by (simp add: set_results)
qed

lemma item_percentage_error:
  "\<forall>i\<in>set (results (get_results d)). vote d \<noteq> [] \<longrightarrow>
     \<bar>item_percentage i - 100 * of_int (item_count i) / of_int (int (length (vote d)))\<bar>
       \<le> 1 / 200 + 1 / 10 ^ 12"
proof -
  have "\<bar>py_round2 (float_mul (float_div (int (count_list (map vote_candidate_id (vote d)) k))
            (int (length (vote d)))) 100)
        - 100 * of_int (int (count_list (map vote_candidate_id (vote d)) k))
            / of_int (int (length (vote d)))\<bar> \<le> 1 / 200 + 1 / 10 ^ 12"
    if "vote d \<noteq> []" for k
  proof -
    have "count_list (map vote_candidate_id (vote d)) k \<le> length (vote d)"
      using count_le_length [of "map vote_candidate_id (vote d)" k] by simp
    then have "0 \<le> int (count_list (map vote_candidate_id (vote d)) k)"
      and "int (count_list (map vote_candidate_id (vote d)) k) \<le> int (length (vote d))"
      and "0 < int (length (vote d))"
      using that by simp_all
    then show ?thesis by (rule percentage_error)
  qed
  then show ?thesis by (simp add: set_results)
qed

lemma pct_1_3:
  "py_round2 (float_mul (float_div 1 3) 100) = 2345390243441541 / 70368744177664"
  by code_simp

lemma distinct_scenario_ids:
  "c1 \<noteq> c2 \<and> c1 \<noteq> c3 \<and> c2 \<noteq> c3 \<and> c2 \<noteq> c1 \<and> c3 \<noteq> c1 \<and> c3 \<noteq> c2"
  by (simp add: c1_def c2_def c3_def)

lemma find_one_None_iff: "find_one f xs = None \<longleftrightarrow> (\<forall>x\<in>set xs. \<not> f x)"
  by (induction xs) auto

lemma references_candidate_iff:
  assumes "\<forall>c\<in>set (candidate d). canonical_id (cand_id c)"
    and "stored_canonically v"
  shows "references_candidate d v \<longleftrightarrow> vote_candidate_id v \<in> cand_id ` set (candidate d)"
proof
  assume "references_candidate d v"
  then obtain oid where o: "objid (vote_candidate_id v) = Inr oid"
    and f: "find_one (\<lambda>c. cand_id c = oid) (candidate d) \<noteq> None"
    by (auto simp: references_candidate_def split: sum.splits)
  from o assms(2) have e: "oid = vote_candidate_id v" by (simp add: stored_canonically_def)
  from f obtain c where "c \<in> set (candidate d)" and "cand_id c = oid"
    by (auto simp: find_one_None_iff)
  with e show "vote_candidate_id v \<in> cand_id ` set (candidate d)"
    by (intro image_eqI [of _ _ c]) simp_all
next
  assume "vote_candidate_id v \<in> cand_id ` set (candidate d)"
  then obtain c where c: "c \<in> set (candidate d)" and e: "cand_id c = vote_candidate_id v"
    by auto
  from assms(1) c e have "objid (vote_candidate_id v) = Inr (vote_candidate_id v)"
    by (auto simp: canonical_id_def)
  with c e show "references_candidate d v"
    by (auto simp: references_candidate_def find_one_None_iff)
qed

lemma scenario_ids_canonical: "canonical_id c1 \<and> canonical_id c2 \<and> canonical_id c3"
  by code_simp

text \<open>
  \<open>cast_vote\<close> accepts an id in upper case, finds the candidate and stores the
  string as it came; \<open>get_results\<close> spells the candidate's id in lower case, so the
  ballot is in the total and in no candidate's count.
\<close>

lemma upper_db_eq:
  "reply (cast_vote True ''t0'' scenario_db \<lparr>req_nim = ''20200001'', req_candidate_id = c1_upper\<rparr>)
     = Inr ()
   \<and> vote upper_db = [\<lparr>vote_candidate_id = c1_upper\<rparr>]
   \<and> candidate upper_db = candidate scenario_db"
  by code_simp

lemma upper_case_ballot_counts_for_no_candidate:
  "references_candidate upper_db \<lparr>vote_candidate_id = c1_upper\<rparr>
   \<and> \<not> stored_canonically \<lparr>vote_candidate_id = c1_upper\<rparr>
   \<and> total_votes (get_results upper_db) = 1
   \<and> map item_count (results (get_results upper_db)) = [0, 0]"
proof -
  have o: "objid c1_upper = Inr c1" by code_simp
  have n: "c1_upper \<noteq> c1 \<and> c1_upper \<noteq> c2 \<and> c1 \<noteq> c1_upper \<and> c2 \<noteq> c1_upper"
    by (simp add: c1_upper_def c1_def c2_def)
  have r: "references_candidate upper_db \<lparr>vote_candidate_id = c1_upper\<rparr>"
    using upper_db_eq o by (simp add: references_candidate_def scenario_db_def)
  have s: "\<not> stored_canonically \<lparr>vote_candidate_id = c1_upper\<rparr>"
    using o n by (simp add: stored_canonically_def)
  have m: "map item_count (results (get_results upper_db)) = [0, 0]"
    unfolding get_results_eq using upper_db_eq n by (simp add: scenario_db_def)
  from r s m upper_db_eq show ?thesis by (simp add: total_votes_eq)
qed

section \<open>The claims about \<open>get_results\<close>\<close>

text \<open>
  C4, as the code has it: in every state of the store the reported total is the number
  of ballots, every percentage lies between 0 and 100, and all percentages are 0 when
  the total is 0. Where the ids of the candidates and of the ballots are stored in
  canonical form, the counts of the returned candidates add up to the number of ballots
  that reference a listed candidate: a ballot of a candidate that is no longer in the
  registry is counted in the total only, so the sum is at most the total, and it equals
  the total when every ballot references a listed candidate.
\<close>

theorem tally_counts_and_percentages:
  assumes "distinct (map cand_id (candidate d))"
  shows "total_votes (get_results d) = int (length (vote d))
   \<and> (\<forall>i\<in>set (results (get_results d)). 0 \<le> item_percentage i \<and> item_percentage i \<le> 100)
   \<and> (total_votes (get_results d) = 0 \<longrightarrow>
        (\<forall>i\<in>set (results (get_results d)). item_percentage i = 0))
   \<and> ((\<forall>c\<in>set (candidate d). canonical_id (cand_id c))
        \<and> (\<forall>v\<in>set (vote d). stored_canonically v) \<longrightarrow>
        sum_list (map item_count (results (get_results d))) =
          int (length (filter (references_candidate d) (vote d)))
        \<and> sum_list (map item_count (results (get_results d))) \<le> total_votes (get_results d)
        \<and> ((\<forall>v\<in>set (vote d). references_candidate d v) \<longrightarrow>
             sum_list (map item_count (results (get_results d))) = total_votes (get_results d)))"
proof -
  have zero: "item_percentage i = 0"
    if "total_votes (get_results d) = 0" and "i \<in> set (results (get_results d))" for i
    using that unfolding set_results by (auto simp: total_votes_eq)
  have sums: "sum_list (map item_count (results (get_results d))) =
          int (length (filter (references_candidate d) (vote d)))
        \<and> sum_list (map item_count (results (get_results d))) \<le> total_votes (get_results d)
        \<and> ((\<forall>v\<in>set (vote d). references_candidate d v) \<longrightarrow>
             sum_list (map item_count (results (get_results d))) = total_votes (get_results d))"
    if h: "(\<forall>c\<in>set (candidate d). canonical_id (cand_id c))
        \<and> (\<forall>v\<in>set (vote d). stored_canonically v)"
  proof -
    have "filter (\<lambda>v. vote_candidate_id v \<in> cand_id ` set (candidate d)) (vote d)
        = filter (references_candidate d) (vote d)"
      using h by (intro filter_cong refl) (simp add: references_candidate_iff)
    then have s: "sum_list (map item_count (results (get_results d))) =
          int (length (filter (references_candidate d) (vote d)))"
      by (simp add: sum_item_count [OF assms])
    have le: "length (filter (references_candidate d) (vote d)) \<le> length (vote d)"
      by (rule length_filter_le)
    have eq: "filter (references_candidate d) (vote d) = vote d"
      if "\<forall>v\<in>set (vote d). references_candidate d v"
      using that by (simp add: filter_id_conv)
    from s le eq show ?thesis by (simp add: total_votes_eq)
  qed
  from zero sums item_percentage_bounds [of d] show ?thesis
    by (simp add: total_votes_eq)
qed

theorem tally_counts_and_percentages_witness:
  "distinct (map cand_id (candidate scenario_c))
   \<and> list_all (\<lambda>c. canonical_id (cand_id c)) (candidate scenario_c)
   \<and> list_all stored_canonically (vote scenario_c)
   \<and> list_all (references_candidate scenario_c) (vote scenario_c)
   \<and> total_votes (get_results scenario_c) = 4
   \<and> sum_list (map item_count (results (get_results scenario_c))) = 4"
proof -
  have a: "distinct (map cand_id (candidate scenario_c))"
    using distinct_scenario_ids by (simp add: scenario_c_def scenario_db_def)
  have b: "list_all (\<lambda>c. canonical_id (cand_id c)) (candidate scenario_c)"
    using scenario_ids_canonical by (simp add: scenario_c_def scenario_db_def)
  have c: "list_all stored_canonically (vote scenario_c)"
    using scenario_ids_canonical
    by (simp add: scenario_c_def scenario_db_def stored_canonically_def canonical_id_def)
  have e: "list_all (references_candidate scenario_c) (vote scenario_c)"
    using scenario_ids_canonical distinct_scenario_ids
    by (simp add: scenario_c_def scenario_db_def references_candidate_def canonical_id_def)
  from tally_counts_and_percentages [OF a] a b c e
  show ?thesis by (simp add: list_all_iff scenario_c_def scenario_db_def)
qed

theorem tally_orphan_ballot_counterexample:
  "distinct (map cand_id (candidate orphan_db))
   \<and> list_all (\<lambda>c. canonical_id (cand_id c)) (candidate orphan_db)
   \<and> list_all stored_canonically (vote orphan_db)
   \<and> \<not> references_candidate orphan_db \<lparr>vote_candidate_id = c3\<rparr>
   \<and> total_votes (get_results orphan_db) = 2
   \<and> sum_list (map item_count (results (get_results orphan_db))) = 1"
proof -
  have a: "distinct (map cand_id (candidate orphan_db))"
    using distinct_scenario_ids by (simp add: orphan_db_def scenario_db_def)
  have b: "list_all (\<lambda>c. canonical_id (cand_id c)) (candidate orphan_db)"
    using scenario_ids_canonical by (simp add: orphan_db_def scenario_db_def)
  have c: "list_all stored_canonically (vote orphan_db)"
    using scenario_ids_canonical
    by (simp add: orphan_db_def scenario_db_def stored_canonically_def canonical_id_def)
  have e: "\<not> references_candidate orphan_db \<lparr>vote_candidate_id = c3\<rparr>"
    using scenario_ids_canonical distinct_scenario_ids
    by (simp add: orphan_db_def scenario_db_def references_candidate_def canonical_id_def)
  from a b c e distinct_scenario_ids show ?thesis
    by (simp add: total_votes_eq sum_item_count orphan_db_def scenario_db_def)
qed

text \<open>
  C9: the total is the number of ballots; every candidate of the registry is reported;
  each reported count is the number of ballots that name the candidate, and each
  percentage is computed from that candidate's own count and the total alone: 0 when the
  total is 0, otherwise \<open>round(count / total * 100.0, 2)\<close> in double arithmetic,
  which is within half a hundredth (and the rounding error of the doubles, below
  \<open>10^-12\<close>) of the exact \<open>100 * count / total\<close>.
  With three ballots for candidate 1 and one for candidate 2 the result is counts 3 and
  1, percentages 75.0 and 25.0, total 4.
\<close>

theorem tally_percentage_rule:
  "total_votes (get_results d) = int (length (vote d))
   \<and> item_candidate_id ` set (results (get_results d)) = cand_id ` set (candidate d)
   \<and> (\<forall>i\<in>set (results (get_results d)).
        item_count i = int (count_list (map vote_candidate_id (vote d)) (item_candidate_id i))
        \<and> item_percentage i =
            (if total_votes (get_results d) = 0 then 0
             else py_round2 (float_mul
                    (float_div (item_count i) (total_votes (get_results d))) 100))
        \<and> (0 < total_votes (get_results d) \<longrightarrow>
             \<bar>item_percentage i
                - 100 * of_int (item_count i) / of_int (total_votes (get_results d))\<bar>
               \<le> 1 / 200 + 1 / 10 ^ 12))
   \<and> get_results scenario_c =
       \<lparr>total_votes = 4, results =
         [\<lparr>item_candidate_id = c1, item_number = 1, item_president_name = ''A'',
           item_vice_name = ''B'', item_count = 3, item_percentage = 75\<rparr>,
          \<lparr>item_candidate_id = c2, item_number = 2, item_president_name = ''C'',
           item_vice_name = ''D'', item_count = 1, item_percentage = 25\<rparr>]\<rparr>"
proof -
  have ids: "item_candidate_id ` set (results (get_results d)) = cand_id ` set (candidate d)"
    by (simp add: set_results image_image)
  have items: "\<forall>i\<in>set (results (get_results d)).
        item_count i = int (count_list (map vote_candidate_id (vote d)) (item_candidate_id i))
        \<and> item_percentage i =
            (if total_votes (get_results d) = 0 then 0
             else py_round2 (float_mul
                    (float_div (item_count i) (total_votes (get_results d))) 100))"
    by (simp add: set_results total_votes_eq)
  have acc: "\<forall>i\<in>set (results (get_results d)). 0 < total_votes (get_results d) \<longrightarrow>
             \<bar>item_percentage i
                - 100 * of_int (item_count i) / of_int (total_votes (get_results d))\<bar>
               \<le> 1 / 200 + 1 / 10 ^ 12"
    using item_percentage_error [of d] by (simp add: total_votes_eq)
  have sc: "get_results scenario_c =
       \<lparr>total_votes = 4, results =
         [\<lparr>item_candidate_id = c1, item_number = 1, item_president_name = ''A'',
           item_vice_name = ''B'', item_count = 3, item_percentage = 75\<rparr>,
          \<lparr>item_candidate_id = c2, item_number = 2, item_president_name = ''C'',
           item_vice_name = ''D'', item_count = 1, item_percentage = 25\<rparr>]\<rparr>"
    unfolding get_results_eq
    using distinct_scenario_ids by (simp add: scenario_c_def scenario_db_def pct_3_4 pct_1_4)
  from total_votes_eq [of d] ids items acc sc show ?thesis by blast
qed

theorem tally_percentage_rule_witness:
  "results (get_results thirds_db) =
     [\<lparr>item_candidate_id = c1, item_number = 1, item_president_name = ''A'',
       item_vice_name = ''B'', item_count = 1,
       item_percentage = 2345390243441541 / 70368744177664\<rparr>,
      \<lparr>item_candidate_id = c2, item_number = 2, item_president_name = ''C'',
       item_vice_name = ''D'', item_count = 1,
       item_percentage = 2345390243441541 / 70368744177664\<rparr>,
      \<lparr>item_candidate_id = c3, item_number = 3, item_president_name = ''E'',
       item_vice_name = ''F'', item_count = 1,
       item_percentage = 2345390243441541 / 70368744177664\<rparr>]
   \<and> total_votes (get_results thirds_db) = 3
   \<and> sum_list (map item_percentage (results (get_results thirds_db))) < 100"
proof -
  have r: "results (get_results thirds_db) =
     [\<lparr>item_candidate_id = c1, item_number = 1, item_president_name = ''A'',
       item_vice_name = ''B'', item_count = 1,
       item_percentage = 2345390243441541 / 70368744177664\<rparr>,
      \<lparr>item_candidate_id = c2, item_number = 2, item_president_name = ''C'',
       item_vice_name = ''D'', item_count = 1,
       item_percentage = 2345390243441541 / 70368744177664\<rparr>,
      \<lparr>item_candidate_id = c3, item_number = 3, item_president_name = ''E'',
       item_vice_name = ''F'', item_count = 1,
       item_percentage = 2345390243441541 / 70368744177664\<rparr>]"
    unfolding get_results_eq
    using distinct_scenario_ids by (simp add: thirds_db_def scenario_db_def pct_1_3)
  from tally_percentage_rule [of thirds_db]
  have t: "total_votes (get_results thirds_db) = int (length (vote thirds_db))" by blast
  from r t show ?thesis by (simp add: thirds_db_def)
qed

end
